theory Spec2Isabelle
  imports Main
begin

section \<open>The accounts application: entity, manager and forms\<close>

text \<open>
  The repository is a Django application, \<^verbatim>\<open>accounts\<close>: the entity \<^verbatim>\<open>CustomUser\<close> and its
  manager \<^verbatim>\<open>CustomUserManager\<close> (models.py), two admin forms (forms.py) and the admin
  registration (admin.py). The functions of the repository are embedded below under their
  own names. What they call in the host framework (the model constructor, \<^verbatim>\<open>normalize_email\<close>,
  \<^verbatim>\<open>set_password\<close>, \<^verbatim>\<open>Model.save\<close>, the base forms) is embedded from the framework's documented
  behaviour; each such definition says so.

  Conventions. A Python \<^verbatim>\<open>str\<close> is a \<^typ>\<open>string\<close>, a list of 8-bit characters read as the
  code points below 256. A timestamp is a natural number. Each reading of the clock
  (\<^verbatim>\<open>timezone.now()\<close>) is an argument of its own: \<open>built\<close> is what the clock shows when an
  instance is constructed, \<open>now\<close> what it shows when the instance is saved; nothing is
  assumed about the two. The table of persisted entities is passed in and returned. An
  exception is a value \<open>Inl e\<close>; an operation that raises returns the table it was given.
\<close>

subsection \<open>Data model (models.py, lines 50-86)\<close>

type_synonym timestamp = nat

text \<open>
  The columns of \<^verbatim>\<open>CustomUser\<close>: \<^verbatim>\<open>password\<close> and \<^verbatim>\<open>last_login\<close> come from \<^verbatim>\<open>AbstractBaseUser\<close>
  (the latter redeclared at line 81), \<^verbatim>\<open>is_superuser\<close>, \<^verbatim>\<open>groups\<close> and \<^verbatim>\<open>user_permissions\<close> from
  \<^verbatim>\<open>PermissionsMixin\<close>, the others are declared at lines 73-80. \<open>pk\<close> is the automatic
  primary key (\<^verbatim>\<open>id\<close>), \<open>None\<close> on an instance that was given none. The two many-to-many
  sets are not attributes of a Python instance: they are read from the storage by the key of
  the instance. The record shows them as the instance reads them.
\<close>

record CustomUser =
  pk :: "nat option"
  password :: string
  last_login :: "timestamp option"
  is_superuser :: bool
  groups :: "nat set"
  user_permissions :: "nat set"
  name :: string
  email :: string
  phone :: string
  is_staff :: bool
  is_active :: bool
  date_joined :: timestamp

text \<open>
  \<^verbatim>\<open>**extra_fields\<close>: the keyword arguments of the manager's methods. The entry of a column
  is either absent (\<open>None\<close>) or a value of the column's type; \<open>ef_id\<close> is the key, passed as
  \<^verbatim>\<open>id\<close> or \<^verbatim>\<open>pk\<close>. \<open>ef_unknown\<close> lists the keywords that the constructor of the entity
  does not accept: a name that is no column, or a many-to-many relation. \<^verbatim>\<open>email\<close> and
  \<^verbatim>\<open>password\<close> are named parameters of both methods, so Python never puts them into
  \<^verbatim>\<open>extra_fields\<close>.
\<close>

record extra_fields =
  ef_name :: "string option"
  ef_phone :: "string option"
  ef_is_staff :: "bool option"
  ef_is_active :: "bool option"
  ef_is_superuser :: "bool option"
  ef_date_joined :: "timestamp option"
  ef_last_login :: "timestamp option"
  ef_id :: "nat option"
  ef_unknown :: "string list"

definition no_extra_fields :: extra_fields where
  "no_extra_fields =
     \<lparr>ef_name = None, ef_phone = None, ef_is_staff = None, ef_is_active = None,
      ef_is_superuser = None, ef_date_joined = None, ef_last_login = None, ef_id = None,
      ef_unknown = []\<rparr>"

datatype error = ValueError string | TypeError string | IntegrityError

record database =
  rows :: "CustomUser list"
  next_id :: nat

definition empty_db :: database where
  "empty_db = \<lparr>rows = [], next_id = 1\<rparr>"

text \<open>The host's password hasher: \<^verbatim>\<open>make_password\<close> and \<^verbatim>\<open>check_password\<close> of the framework.\<close>

record hasher =
  make_password :: "string \<Rightarrow> string"
  check_password :: "string \<Rightarrow> string \<Rightarrow> bool"

subsection \<open>Host framework: strings\<close>

definition code :: "char \<Rightarrow> nat" where
  "code c = of_char c"

text \<open>\<^verbatim>\<open>str.isspace\<close> on the code points below 256.\<close>

definition isspace :: "char \<Rightarrow> bool" where
  "isspace c = (let n = code c in (9 \<le> n \<and> n \<le> 13) \<or> (28 \<le> n \<and> n \<le> 32) \<or> n = 133 \<or> n = 160)"

text \<open>\<^verbatim>\<open>str.lower\<close> on one code point below 256: A-Z and the Latin-1 capitals move up by 32.\<close>

definition lower_char :: "char \<Rightarrow> char" where
  "lower_char c = (let n = code c in
     if (65 \<le> n \<and> n \<le> 90) \<or> (192 \<le> n \<and> n \<le> 222 \<and> n \<noteq> 215) then char_of (n + 32) else c)"

definition lower :: "string \<Rightarrow> string" where
  "lower s = map lower_char s"

definition lstrip :: "string \<Rightarrow> string" where
  "lstrip s = dropWhile isspace s"

definition rstrip :: "string \<Rightarrow> string" where
  "rstrip s = rev (dropWhile isspace (rev s))"

definition strip :: "string \<Rightarrow> string" where
  "strip s = rstrip (lstrip s)"

text \<open>
  \<^verbatim>\<open>s.rsplit("@", 1)\<close>: \<open>None\<close> when \<open>s\<close> has no \<^verbatim>\<open>@\<close> (the unpacking into two names
  raises \<^verbatim>\<open>ValueError\<close> there), otherwise what stands before and after the last \<^verbatim>\<open>@\<close>.
\<close>

definition rsplit_at :: "string \<Rightarrow> (string \<times> string) option" where
  "rsplit_at s =
     (if CHR ''@'' \<in> set s
      then Some (rev (tl (dropWhile (\<lambda>c. c \<noteq> CHR ''@'') (rev s))),
                 rev (takeWhile (\<lambda>c. c \<noteq> CHR ''@'') (rev s)))
      else None)"

text \<open>
  \<^verbatim>\<open>BaseUserManager.normalize_email\<close> of the host framework:
  \<^verbatim>\<open>
    email = email or ""
    try:
        email_name, domain_part = email.strip().rsplit("@", 1)
    except ValueError:
        pass
    else:
        email = email_name + "@" + domain_part.lower()
    return email
  \<close>
\<close>

definition normalize_email :: "string \<Rightarrow> string" where
  "normalize_email e =
     (case rsplit_at (strip e) of
        None \<Rightarrow> e
      | Some (email_name, domain_part) \<Rightarrow> email_name @ ''@'' @ lower domain_part)"

subsection \<open>Host framework: constructor, password, save\<close>

text \<open>The row that the table holds under a key, if any.\<close>

definition stored :: "database \<Rightarrow> nat option \<Rightarrow> CustomUser option" where
  "stored db key = (case key of None \<Rightarrow> None | Some k \<Rightarrow> find (\<lambda>r. pk r = Some k) (rows db))"

definition getdefault :: "'a option \<Rightarrow> 'a \<Rightarrow> 'a" where
  "getdefault v d = (case v of None \<Rightarrow> d | Some x \<Rightarrow> x)"

text \<open>
  \<^verbatim>\<open>self.model(email=email, **extra_fields)\<close>. A keyword that the constructor does not
  accept raises \<^verbatim>\<open>TypeError\<close>. Otherwise a keyword sets its column, and every other column
  takes the default of its declaration: \<^verbatim>\<open>is_staff\<close> False (line 78), \<^verbatim>\<open>is_active\<close> True
  (line 79), \<^verbatim>\<open>date_joined\<close> the reading \<open>built\<close> of the clock (\<^verbatim>\<open>default=timezone.now\<close>,
  line 80), \<^verbatim>\<open>is_superuser\<close> False, the character columns the empty string, \<^verbatim>\<open>last_login\<close>
  nothing. The key is the one passed, if any. The many-to-many sets are those the storage
  holds under that key, and empty for a key the storage does not hold.
\<close>

definition CustomUser_init ::
  "timestamp \<Rightarrow> database \<Rightarrow> string \<Rightarrow> extra_fields \<Rightarrow> error + CustomUser" where
  "CustomUser_init built db e ef =
     (if ef_unknown ef \<noteq> []
      then Inl (TypeError ''CustomUser() got unexpected keyword arguments'')
      else Inr
        \<lparr>pk = ef_id ef,
         password = [],
         last_login = ef_last_login ef,
         is_superuser = getdefault (ef_is_superuser ef) False,
         groups = (case stored db (ef_id ef) of None \<Rightarrow> {} | Some r \<Rightarrow> groups r),
         user_permissions =
           (case stored db (ef_id ef) of None \<Rightarrow> {} | Some r \<Rightarrow> user_permissions r),
         name = getdefault (ef_name ef) [],
         email = e,
         phone = getdefault (ef_phone ef) [],
         is_staff = getdefault (ef_is_staff ef) False,
         is_active = getdefault (ef_is_active ef) True,
         date_joined = getdefault (ef_date_joined ef) built\<rparr>)"

text \<open>\<^verbatim>\<open>AbstractBaseUser.set_password\<close>: \<^verbatim>\<open>self.password = make_password(raw_password)\<close>.\<close>

definition set_password :: "hasher \<Rightarrow> CustomUser \<Rightarrow> string \<Rightarrow> CustomUser" where
  "set_password h u raw_password = u\<lparr>password := make_password h raw_password\<rparr>"

text \<open>
  The unique constraints of lines 74 and 75 (\<^verbatim>\<open>unique=True\<close> on \<^verbatim>\<open>email\<close> and on \<^verbatim>\<open>phone\<close>), as
  the storage engine checks them on a write against the other rows \<open>rs\<close>: one of them holds
  the same email or the same phone. Equality is that of the strings, case included.
\<close>

definition unique_conflict :: "CustomUser \<Rightarrow> CustomUser list \<Rightarrow> bool" where
  "unique_conflict u rs = list_ex (\<lambda>r. email r = email u \<or> phone r = phone u) rs"

text \<open>
  The rows other than the one that an instance with the key \<open>key\<close> is written to: all of
  them for an instance without a key, which is inserted.
\<close>

definition other_rows :: "nat option \<Rightarrow> database \<Rightarrow> CustomUser list" where
  "other_rows key db =
     (case key of None \<Rightarrow> rows db | Some k \<Rightarrow> filter (\<lambda>r. pk r \<noteq> Some k) (rows db))"

text \<open>
  \<^verbatim>\<open>Model.save()\<close>. Before the write, the column declared \<^verbatim>\<open>auto_now=True\<close> (line 81,
  \<^verbatim>\<open>last_login\<close>) is set to the current time. An instance whose key is in the table is
  updated in its row; any other instance is inserted, under a fresh key when it has none.
  A write that breaks a unique constraint raises \<^verbatim>\<open>IntegrityError\<close> and changes nothing;
  the constraint is checked against the rows other than the one the instance is written
  to. \<^verbatim>\<open>save()\<close> runs no validator of any column.
\<close>

definition save :: "timestamp \<Rightarrow> CustomUser \<Rightarrow> database \<Rightarrow> (error + CustomUser) \<times> database" where
  "save now u db =
     (let u1 = u\<lparr>last_login := Some now\<rparr> in
      case pk u1 of
        None \<Rightarrow>
          if unique_conflict u1 (rows db) then (Inl IntegrityError, db)
          else (let u2 = u1\<lparr>pk := Some (next_id db)\<rparr>
                in (Inr u2, db\<lparr>rows := rows db @ [u2], next_id := Suc (next_id db)\<rparr>))
      | Some k \<Rightarrow>
          if unique_conflict u1 (filter (\<lambda>r. pk r \<noteq> Some k) (rows db))
          then (Inl IntegrityError, db)
          else if list_ex (\<lambda>r. pk r = Some k) (rows db)
          then (Inr u1, db\<lparr>rows := map (\<lambda>r. if pk r = Some k then u1 else r) (rows db)\<rparr>)
          else (Inr u1, db\<lparr>rows := rows db @ [u1], next_id := max (next_id db) (Suc k)\<rparr>))"

subsection \<open>CustomUserManager (models.py, lines 8-48)\<close>

definition create_user ::
  "hasher \<Rightarrow> timestamp \<Rightarrow> timestamp \<Rightarrow> database \<Rightarrow> string \<Rightarrow> string \<Rightarrow> extra_fields
     \<Rightarrow> (error + CustomUser) \<times> database" where
  "create_user h built now db e raw_password ef =
     (if e = [] then (Inl (ValueError ''Email must be set''), db)
      else (let e1 = normalize_email e in
            case CustomUser_init built db e1 ef of
              Inl err \<Rightarrow> (Inl err, db)
            | Inr user \<Rightarrow>
                (let user1 = set_password h user raw_password
                 in save now user1 db)))"

text \<open>\<^verbatim>\<open>dict.setdefault\<close> on one key: an absent key takes the default, a present one stays.\<close>

definition setdefault :: "'a option \<Rightarrow> 'a \<Rightarrow> 'a option" where
  "setdefault v d = (case v of None \<Rightarrow> Some d | Some x \<Rightarrow> Some x)"

definition superuser_defaults :: "extra_fields \<Rightarrow> extra_fields" where
  "superuser_defaults ef =
     ef\<lparr>ef_is_staff := setdefault (ef_is_staff ef) True,
        ef_is_superuser := setdefault (ef_is_superuser ef) True,
        ef_is_active := setdefault (ef_is_active ef) True\<rparr>"

definition create_superuser ::
  "hasher \<Rightarrow> timestamp \<Rightarrow> timestamp \<Rightarrow> database \<Rightarrow> string \<Rightarrow> string \<Rightarrow> extra_fields
     \<Rightarrow> (error + CustomUser) \<times> database" where
  "create_superuser h built now db e raw_password ef =
     (let ef1 = superuser_defaults ef in
      if ef_is_staff ef1 \<noteq> Some True
      then (Inl (ValueError ''Superuser must have is_staff=True.''), db)
      else if ef_is_superuser ef1 \<noteq> Some True
      then (Inl (ValueError ''Superuser must have is_superuser=True.''), db)
      else create_user h built now db e raw_password ef1)"

subsection \<open>The phone validator (models.py, lines 75-77)\<close>

text \<open>\<^verbatim>\<open>\d\<close> on the code points below 256: the ten digits 0-9.\<close>

definition isdigit :: "char \<Rightarrow> bool" where
  "isdigit c = (48 \<le> code c \<and> code c \<le> 57)"

text \<open>
  \<^verbatim>\<open>RegexValidator(regex=r'^09\d{9}$')\<close> accepts a value when \<^verbatim>\<open>re.search\<close> finds the pattern:
  the value starts with \<^verbatim>\<open>09\<close>, nine digits follow, and then comes the end of the string, or
  one line feed and the end of the string (Python's \<^verbatim>\<open>$\<close>).
\<close>

definition phone_regex :: "string \<Rightarrow> bool" where
  "phone_regex s =
     (take 2 s = ''09'' \<and> length (take 9 (drop 2 s)) = 9 \<and> list_all isdigit (take 9 (drop 2 s))
      \<and> (drop 11 s = [] \<or> drop 11 s = [CHR 0x0A]))"

text \<open>Both validators of the column: the pattern and \<^verbatim>\<open>max_length=11\<close>.\<close>

definition phone_validators :: "string \<Rightarrow> bool" where
  "phone_validators s = (phone_regex s \<and> length s \<le> 11)"

subsection \<open>Account forms (forms.py)\<close>

text \<open>
  The cleaned data of a form. A form reads the entries of its own fields only: the creation
  form \<open>cd_email\<close>, \<open>cd_name\<close>, \<open>cd_phone\<close> and the two passwords, the change form the
  entries named in its \<^verbatim>\<open>Meta.fields\<close>.
\<close>

record cleaned_data =
  cd_email :: string
  cd_name :: string
  cd_phone :: string
  cd_is_active :: bool
  cd_is_staff :: bool
  cd_is_superuser :: bool
  cd_user_permissions :: "nat set"
  cd_password1 :: string
  cd_password2 :: string

text \<open>\<^verbatim>\<open>Meta.fields\<close> of the two forms (forms.py, lines 7 and 21).\<close>

definition CustomUserCreationForm_fields :: "string list" where
  "CustomUserCreationForm_fields = [''email'', ''name'', ''phone'']"

definition CustomUserChangeForm_fields :: "string list" where
  "CustomUserChangeForm_fields =
     [''email'', ''name'', ''phone'', ''is_active'', ''is_staff'', ''is_superuser'',
      ''user_permissions'']"

text \<open>
  The host's \<^verbatim>\<open>construct_instance\<close>: a model form writes the cleaned value of each field of
  its \<^verbatim>\<open>Meta.fields\<close> onto the instance, and touches no other column.
\<close>

definition set_field :: "cleaned_data \<Rightarrow> string \<Rightarrow> CustomUser \<Rightarrow> CustomUser" where
  "set_field cd f u =
     (if f = ''email'' then u\<lparr>email := cd_email cd\<rparr>
      else if f = ''name'' then u\<lparr>name := cd_name cd\<rparr>
      else if f = ''phone'' then u\<lparr>phone := cd_phone cd\<rparr>
      else if f = ''is_active'' then u\<lparr>is_active := cd_is_active cd\<rparr>
      else if f = ''is_staff'' then u\<lparr>is_staff := cd_is_staff cd\<rparr>
      else if f = ''is_superuser'' then u\<lparr>is_superuser := cd_is_superuser cd\<rparr>
      else if f = ''user_permissions'' then u\<lparr>user_permissions := cd_user_permissions cd\<rparr>
      else u)"

definition construct_instance :: "string list \<Rightarrow> cleaned_data \<Rightarrow> CustomUser \<Rightarrow> CustomUser" where
  "construct_instance fs cd u = fold (set_field cd) fs u"

text \<open>
  The host's \<^verbatim>\<open>UserCreationForm.save\<close>, which line 10 calls with \<^verbatim>\<open>commit=False\<close>: the
  instance is a new entity (the constructor called with no keyword, when the form is
  built) carrying the cleaned fields of the form, its password is set from \<^verbatim>\<open>password1\<close>,
  and it is saved when \<^verbatim>\<open>commit\<close> holds.
\<close>

definition UserCreationForm_save ::
  "hasher \<Rightarrow> timestamp \<Rightarrow> timestamp \<Rightarrow> database \<Rightarrow> cleaned_data \<Rightarrow> bool
     \<Rightarrow> (error + CustomUser) \<times> database" where
  "UserCreationForm_save h built now db cd commit =
     (case CustomUser_init built db [] no_extra_fields of
        Inl err \<Rightarrow> (Inl err, db)
      | Inr new \<Rightarrow>
          (let user = construct_instance CustomUserCreationForm_fields cd new;
               user1 = set_password h user (cd_password1 cd)
           in if commit then save now user1 db else (Inr user1, db)))"

text \<open>\<^verbatim>\<open>CustomUserCreationForm.save\<close> (forms.py, lines 9-15).\<close>

definition CustomUserCreationForm_save ::
  "hasher \<Rightarrow> timestamp \<Rightarrow> timestamp \<Rightarrow> database \<Rightarrow> cleaned_data \<Rightarrow> bool
     \<Rightarrow> (error + CustomUser) \<times> database" where
  "CustomUserCreationForm_save h built now db cd commit =
     (case UserCreationForm_save h built now db cd False of
        (Inl err, db1) \<Rightarrow> (Inl err, db1)
      | (Inr user, db1) \<Rightarrow>
          (let user1 = user\<lparr>name := cd_name cd\<rparr>;
               user2 = user1\<lparr>phone := cd_phone cd\<rparr>
           in if commit then save now user2 db1 else (Inr user2, db1)))"

text \<open>
  \<^verbatim>\<open>CustomUserChangeForm\<close> (forms.py, lines 18-21) declares no method: its save is the host's
  \<^verbatim>\<open>ModelForm.save\<close> on the instance the form was opened with.
\<close>

definition CustomUserChangeForm_save ::
  "timestamp \<Rightarrow> database \<Rightarrow> CustomUser \<Rightarrow> cleaned_data \<Rightarrow> (error + CustomUser) \<times> database" where
  "CustomUserChangeForm_save now db instance cd =
     save now (construct_instance CustomUserChangeForm_fields cd instance) db"

text \<open>
  What the validation of a form has established when its save runs, as far as the
  declarations of models.py decide it: the required fields are filled, the phone passes
  its validators, email and phone are held by no other entity, and the two passwords of the
  creation form agree. The host's own checks (address syntax, password policy) are not
  part of the conditions, so what is proved below holds under any such policy.
\<close>

definition creation_form_valid :: "database \<Rightarrow> cleaned_data \<Rightarrow> bool" where
  "creation_form_valid db cd =
     (cd_email cd \<noteq> [] \<and> cd_name cd \<noteq> [] \<and> length (cd_name cd) \<le> 255
      \<and> phone_validators (cd_phone cd)
      \<and> cd_email cd \<notin> set (map email (rows db))
      \<and> cd_phone cd \<notin> set (map phone (rows db))
      \<and> cd_password1 cd = cd_password2 cd)"

definition change_form_valid :: "database \<Rightarrow> CustomUser \<Rightarrow> cleaned_data \<Rightarrow> bool" where
  "change_form_valid db instance cd =
     (let others = filter (\<lambda>r. pk r \<noteq> pk instance) (rows db) in
      cd_email cd \<noteq> [] \<and> cd_name cd \<noteq> [] \<and> length (cd_name cd) \<le> 255
      \<and> phone_validators (cd_phone cd)
      \<and> cd_email cd \<notin> set (map email others)
      \<and> cd_phone cd \<notin> set (map phone others))"

subsection \<open>Tables that the application can reach\<close>

text \<open>
  The tables reached from the empty one by the four paths that write an entity. With
  \<open>manager\<close> false only the two forms are used.
\<close>

inductive reachable :: "hasher \<Rightarrow> bool \<Rightarrow> database \<Rightarrow> bool" for h :: hasher and manager :: bool where
  reachable_empty: "reachable h manager empty_db"
| reachable_create_user:
    "reachable h manager db \<Longrightarrow> manager \<Longrightarrow> create_user h built now db e p ef = (res, db')
       \<Longrightarrow> reachable h manager db'"
| reachable_create_superuser:
    "reachable h manager db \<Longrightarrow> manager
       \<Longrightarrow> create_superuser h built now db e p ef = (res, db')
       \<Longrightarrow> reachable h manager db'"
| reachable_creation_form:
    "reachable h manager db \<Longrightarrow> creation_form_valid db cd
       \<Longrightarrow> CustomUserCreationForm_save h built now db cd commit = (res, db')
       \<Longrightarrow> reachable h manager db'"
| reachable_change_form:
    "reachable h manager db \<Longrightarrow> instance \<in> set (rows db) \<Longrightarrow> change_form_valid db instance cd
       \<Longrightarrow> CustomUserChangeForm_save now db instance cd = (res, db')
       \<Longrightarrow> reachable h manager db'"

text \<open>The invariant of the table itself: keys are set, below the counter, and distinct.\<close>

definition keys_ok :: "database \<Rightarrow> bool" where
  "keys_ok db =
     (distinct (map pk (rows db)) \<and> list_all (\<lambda>r. case pk r of None \<Rightarrow> False | Some k \<Rightarrow> k < next_id db) (rows db))"

definition unique_ok :: "database \<Rightarrow> bool" where
  "unique_ok db = (distinct (map email (rows db)) \<and> distinct (map phone (rows db)))"

definition phones_ok :: "database \<Rightarrow> bool" where
  "phones_ok db = list_all (\<lambda>r. phone_regex (phone r) \<and> phone r \<noteq> []) (rows db)"

text \<open>Every stored password is a value of the hash function.\<close>

definition passwords_ok :: "hasher \<Rightarrow> database \<Rightarrow> bool" where
  "passwords_ok h db = list_all (\<lambda>r. password r \<in> range (make_password h)) (rows db)"

subsection \<open>A hasher and entities for the examples\<close>

definition example_hasher :: hasher where
  "example_hasher =
     \<lparr>make_password = (\<lambda>p. ''pbkdf2_sha256$'' @ p),
      check_password = (\<lambda>p encoded. encoded = ''pbkdf2_sha256$'' @ p)\<rparr>"

definition example_user :: CustomUser where
  "example_user =
     \<lparr>pk = Some 1, password = ''pbkdf2_sha256$secret'', last_login = Some 100,
      is_superuser = False, groups = {}, user_permissions = {}, name = ''Sara'',
      email = ''sara@example.com'', phone = ''09123456789'', is_staff = False,
      is_active = True, date_joined = 100\<rparr>"

definition example_db :: database where
  "example_db = \<lparr>rows = [example_user], next_id = 2\<rparr>"

section \<open>Properties\<close>

subsection \<open>Saving\<close>

lemma unique_conflict_iff:
  "unique_conflict u rs \<longleftrightarrow> email u \<in> set (map email rs) \<or> phone u \<in> set (map phone rs)"
  unfolding unique_conflict_def list_ex_iff set_map image_iff by metis

lemma other_rows_subset: "set (other_rows key db) \<subseteq> set (rows db)"
  by (auto simp: other_rows_def split: option.splits)

lemma save_conflict:
  assumes "email u \<in> set (map email (other_rows (pk u) db))
           \<or> phone u \<in> set (map phone (other_rows (pk u) db))"
  shows "save now u db = (Inl IntegrityError, db)"
  using assms
  by (auto simp: save_def Let_def unique_conflict_iff other_rows_def split: option.splits)

lemma save_ok:
  assumes "email u \<notin> set (map email (other_rows (pk u) db))"
    and "phone u \<notin> set (map phone (other_rows (pk u) db))"
  shows "save now u db =
     (case pk u of
        None \<Rightarrow>
          (Inr (u\<lparr>last_login := Some now, pk := Some (next_id db)\<rparr>),
           db\<lparr>rows := rows db @ [u\<lparr>last_login := Some now, pk := Some (next_id db)\<rparr>],
              next_id := Suc (next_id db)\<rparr>)
      | Some k \<Rightarrow>
          if list_ex (\<lambda>r. pk r = Some k) (rows db)
          then (Inr (u\<lparr>last_login := Some now\<rparr>),
                db\<lparr>rows := map (\<lambda>r. if pk r = Some k then u\<lparr>last_login := Some now\<rparr> else r)
                              (rows db)\<rparr>)
          else (Inr (u\<lparr>last_login := Some now\<rparr>),
                db\<lparr>rows := rows db @ [u\<lparr>last_login := Some now\<rparr>],
                   next_id := max (next_id db) (Suc k)\<rparr>))"
  using assms
  by (auto simp: save_def Let_def unique_conflict_iff other_rows_def split: option.splits)

lemma save_insert:
  assumes "pk u = None"
    and "email u \<notin> set (map email (rows db))" and "phone u \<notin> set (map phone (rows db))"
  shows "save now u db =
     (Inr (u\<lparr>last_login := Some now, pk := Some (next_id db)\<rparr>),
      db\<lparr>rows := rows db @ [u\<lparr>last_login := Some now, pk := Some (next_id db)\<rparr>],
         next_id := Suc (next_id db)\<rparr>)"
  using assms by (simp add: save_def Let_def unique_conflict_iff)

lemma replaced_member:
  assumes "list_ex (\<lambda>r. pk r = Some k) rs"
  shows "u \<in> set (map (\<lambda>r. if pk r = Some k then u else r) rs)"
  using assms by (induction rs) auto

text \<open>A save that returns an entity has written it, and changed its key and last login only.\<close>

lemma save_Inr:
  assumes "save now u db = (Inr u', db')"
  shows "u' \<in> set (rows db')" and "u' = u\<lparr>last_login := Some now, pk := pk u'\<rparr>"
    and "pk u' \<noteq> None" and "pk u \<noteq> None \<longrightarrow> pk u' = pk u"
    and "email u \<notin> set (map email (other_rows (pk u) db))"
    and "phone u \<notin> set (map phone (other_rows (pk u) db))"
proof -
  have nc: "\<not> (email u \<in> set (map email (other_rows (pk u) db))
           \<or> phone u \<in> set (map phone (other_rows (pk u) db)))"
    using assms save_conflict [of u db now] by auto
  then have a: "email u \<notin> set (map email (other_rows (pk u) db))"
    and b: "phone u \<notin> set (map phone (other_rows (pk u) db))" by simp_all
  show "email u \<notin> set (map email (other_rows (pk u) db))" by (rule a)
  show "phone u \<notin> set (map phone (other_rows (pk u) db))" by (rule b)
  note eq = trans [OF assms [symmetric] save_ok [OF a b]]
  show "u' \<in> set (rows db')"
    using eq replaced_member [of _ "rows db" "u\<lparr>last_login := Some now\<rparr>"]
    by (auto split: option.splits if_splits)
  show "u' = u\<lparr>last_login := Some now, pk := pk u'\<rparr>"
    using eq by (auto split: option.splits if_splits)
  show "pk u' \<noteq> None"
    using eq by (auto split: option.splits if_splits)
  show "pk u \<noteq> None \<longrightarrow> pk u' = pk u"
    using eq by (auto split: option.splits if_splits)
qed

lemma save_succeeds:
  assumes "email u \<notin> set (map email (other_rows (pk u) db))"
    and "phone u \<notin> set (map phone (other_rows (pk u) db))"
  shows "\<exists>u' db'. save now u db = (Inr u', db')"
  unfolding save_ok [OF assms] by (simp split: option.splits)

subsection \<open>The manager\<close>

lemma create_user_empty:
  "create_user h built now db [] p ef = (Inl (ValueError ''Email must be set''), db)"
  by (simp add: create_user_def)

lemma create_user_unknown:
  assumes "e \<noteq> []" and "ef_unknown ef \<noteq> []"
  shows "create_user h built now db e p ef
           = (Inl (TypeError ''CustomUser() got unexpected keyword arguments''), db)"
  using assms by (simp add: create_user_def CustomUser_init_def Let_def)

text \<open>The instance that \<^verbatim>\<open>create_user\<close> hands to \<^verbatim>\<open>save\<close>.\<close>

lemma create_user_save:
  assumes "e \<noteq> []" and "ef_unknown ef = []"
  shows "create_user h built now db e p ef =
     save now
       \<lparr>pk = ef_id ef,
        password = make_password h p,
        last_login = ef_last_login ef,
        is_superuser = getdefault (ef_is_superuser ef) False,
        groups = (case stored db (ef_id ef) of None \<Rightarrow> {} | Some r \<Rightarrow> groups r),
        user_permissions =
          (case stored db (ef_id ef) of None \<Rightarrow> {} | Some r \<Rightarrow> user_permissions r),
        name = getdefault (ef_name ef) [],
        email = normalize_email e,
        phone = getdefault (ef_phone ef) [],
        is_staff = getdefault (ef_is_staff ef) False,
        is_active = getdefault (ef_is_active ef) True,
        date_joined = getdefault (ef_date_joined ef) built\<rparr> db"
  using assms by (simp add: create_user_def CustomUser_init_def Let_def set_password_def)

lemma create_user_conflict:
  assumes "e \<noteq> []" and "ef_unknown ef = []"
    and "normalize_email e \<in> set (map email (other_rows (ef_id ef) db))
         \<or> getdefault (ef_phone ef) [] \<in> set (map phone (other_rows (ef_id ef) db))"
  shows "create_user h built now db e p ef = (Inl IntegrityError, db)"
  unfolding create_user_save [OF assms(1,2)]
  using assms(3) by (intro save_conflict) simp

text \<open>What a successful \<^verbatim>\<open>create_user\<close> says about its arguments and its result.\<close>

lemma create_user_Inr:
  assumes "create_user h built now db e p ef = (Inr u, db')"
  shows "e \<noteq> []" and "ef_unknown ef = []"
    and "normalize_email e \<notin> set (map email (other_rows (ef_id ef) db))"
    and "getdefault (ef_phone ef) [] \<notin> set (map phone (other_rows (ef_id ef) db))"
    and "u \<in> set (rows db')" and "pk u \<noteq> None"
    and "email u = normalize_email e" and "password u = make_password h p"
    and "is_staff u = getdefault (ef_is_staff ef) False"
    and "is_superuser u = getdefault (ef_is_superuser ef) False"
    and "is_active u = getdefault (ef_is_active ef) True"
proof -
  show e: "e \<noteq> []"
    using assms create_user_empty [of h built now db p ef] by auto
  show un: "ef_unknown ef = []"
    using assms e create_user_unknown [of e ef h built now db p] by auto
  note s = save_Inr [OF assms [unfolded create_user_save [OF e un]]]
  show "normalize_email e \<notin> set (map email (other_rows (ef_id ef) db))"
    and "getdefault (ef_phone ef) [] \<notin> set (map phone (other_rows (ef_id ef) db))"
    using s(5,6) by simp_all
  show "u \<in> set (rows db')" by (rule s(1))
  show "pk u \<noteq> None" by (rule s(3))
  show "email u = normalize_email e" by (subst s(2)) simp
  show "password u = make_password h p" by (subst s(2)) simp
  show "is_staff u = getdefault (ef_is_staff ef) False" by (subst s(2)) simp
  show "is_superuser u = getdefault (ef_is_superuser ef) False" by (subst s(2)) simp
  show "is_active u = getdefault (ef_is_active ef) True" by (subst s(2)) simp
qed

lemma create_user_succeeds:
  assumes "e \<noteq> []" and "ef_unknown ef = []"
    and "normalize_email e \<notin> set (map email (other_rows (ef_id ef) db))"
    and "getdefault (ef_phone ef) [] \<notin> set (map phone (other_rows (ef_id ef) db))"
  shows "\<exists>u db'. create_user h built now db e p ef = (Inr u, db')"
  unfolding create_user_save [OF assms(1,2)]
  using assms(3,4) by (intro save_succeeds) simp_all

lemma create_superuser_delegates:
  assumes "ef_is_staff ef \<noteq> Some False" and "ef_is_superuser ef \<noteq> Some False"
  shows "create_superuser h built now db e p ef
           = create_user h built now db e p (superuser_defaults ef)"
  using assms
  by (auto simp: superuser_defaults_def create_superuser_def setdefault_def Let_def
           split: option.splits)

lemma create_superuser_rejects:
  assumes "ef_is_staff ef = Some False \<or> ef_is_superuser ef = Some False"
  shows "\<exists>msg. create_superuser h built now db e p ef = (Inl (ValueError msg), db)"
  using assms
  by (auto simp: superuser_defaults_def create_superuser_def setdefault_def Let_def
           split: option.splits)

text \<open>
  C1, as amended. \<^verbatim>\<open>create_user\<close> with the empty email raises \<^verbatim>\<open>ValueError\<close> and creates
  nothing. With a non-empty email and a keyword that the constructor does not accept it
  raises \<^verbatim>\<open>TypeError\<close> and creates nothing. With a non-empty email and accepted keywords, it
  raises the uniqueness error of the storage layer and changes nothing when another
  persisted entity (any entity, or any but the one under the key passed as \<^verbatim>\<open>id\<close>) holds the
  normalised email or the phone of the new entity, which is the phone passed or the empty
  string when none is passed. In every other case it persists and returns the entity whose
  email is normalised, whose password is the hash of the one given, and whose other columns
  are the keywords passed or the defaults: as a new row under a fresh key when no \<^verbatim>\<open>id\<close> is
  passed, in place of the row under the key passed when there is one, and as a new row
  under that key otherwise. \<^verbatim>\<open>date_joined\<close> defaults to the clock as read at construction,
  \<^verbatim>\<open>last_login\<close> is the clock as read at the save.
\<close>

theorem create_user_outcomes:
  "(e = [] \<longrightarrow>
      create_user h built now db e p ef = (Inl (ValueError ''Email must be set''), db))
   \<and> (e \<noteq> [] \<and> ef_unknown ef \<noteq> [] \<longrightarrow>
      (\<exists>msg. create_user h built now db e p ef = (Inl (TypeError msg), db)))
   \<and> (e \<noteq> [] \<and> ef_unknown ef = []
         \<and> (normalize_email e \<in> set (map email (other_rows (ef_id ef) db))
              \<or> getdefault (ef_phone ef) [] \<in> set (map phone (other_rows (ef_id ef) db)))
        \<longrightarrow> create_user h built now db e p ef = (Inl IntegrityError, db))
   \<and> (e \<noteq> [] \<and> ef_unknown ef = []
         \<and> normalize_email e \<notin> set (map email (other_rows (ef_id ef) db))
         \<and> getdefault (ef_phone ef) [] \<notin> set (map phone (other_rows (ef_id ef) db))
        \<longrightarrow> create_user h built now db e p ef =
             (let u = \<lparr>pk = (case ef_id ef of None \<Rightarrow> Some (next_id db) | Some k \<Rightarrow> Some k),
                       password = make_password h p,
                       last_login = Some now,
                       is_superuser = getdefault (ef_is_superuser ef) False,
                       groups = (case stored db (ef_id ef) of None \<Rightarrow> {} | Some r \<Rightarrow> groups r),
                       user_permissions =
                         (case stored db (ef_id ef) of None \<Rightarrow> {}
                          | Some r \<Rightarrow> user_permissions r),
                       name = getdefault (ef_name ef) [],
                       email = normalize_email e,
                       phone = getdefault (ef_phone ef) [],
                       is_staff = getdefault (ef_is_staff ef) False,
                       is_active = getdefault (ef_is_active ef) True,
                       date_joined = getdefault (ef_date_joined ef) built\<rparr>
              in (Inr u,
                  case ef_id ef of
                    None \<Rightarrow> db\<lparr>rows := rows db @ [u], next_id := Suc (next_id db)\<rparr>
                  | Some k \<Rightarrow>
                      if list_ex (\<lambda>r. pk r = Some k) (rows db)
                      then db\<lparr>rows := map (\<lambda>r. if pk r = Some k then u else r) (rows db)\<rparr>
                      else db\<lparr>rows := rows db @ [u], next_id := max (next_id db) (Suc k)\<rparr>)))"
proof (intro conjI impI)
  assume "e = []"
  then show "create_user h built now db e p ef = (Inl (ValueError ''Email must be set''), db)"
    by (simp add: create_user_empty)
next
  assume "e \<noteq> [] \<and> ef_unknown ef \<noteq> []"
  then show "\<exists>msg. create_user h built now db e p ef = (Inl (TypeError msg), db)"
    by (simp add: create_user_unknown)
next
  assume "e \<noteq> [] \<and> ef_unknown ef = []
         \<and> (normalize_email e \<in> set (map email (other_rows (ef_id ef) db))
              \<or> getdefault (ef_phone ef) [] \<in> set (map phone (other_rows (ef_id ef) db)))"
  then show "create_user h built now db e p ef = (Inl IntegrityError, db)"
    by (intro create_user_conflict) simp_all
next
  let ?user = "\<lparr>pk = ef_id ef,
        password = make_password h p,
        last_login = ef_last_login ef,
        is_superuser = getdefault (ef_is_superuser ef) False,
        groups = (case stored db (ef_id ef) of None \<Rightarrow> {} | Some r \<Rightarrow> groups r),
        user_permissions =
          (case stored db (ef_id ef) of None \<Rightarrow> {} | Some r \<Rightarrow> user_permissions r),
        name = getdefault (ef_name ef) [],
        email = normalize_email e,
        phone = getdefault (ef_phone ef) [],
        is_staff = getdefault (ef_is_staff ef) False,
        is_active = getdefault (ef_is_active ef) True,
        date_joined = getdefault (ef_date_joined ef) built\<rparr>"
  assume a: "e \<noteq> [] \<and> ef_unknown ef = []
         \<and> normalize_email e \<notin> set (map email (other_rows (ef_id ef) db))
         \<and> getdefault (ef_phone ef) [] \<notin> set (map phone (other_rows (ef_id ef) db))"
  then have c: "create_user h built now db e p ef = save now ?user db"
    by (simp add: create_user_save)
  have 1: "email ?user \<notin> set (map email (other_rows (pk ?user) db))"
    and 2: "phone ?user \<notin> set (map phone (other_rows (pk ?user) db))"
    using a by simp_all
  show "create_user h built now db e p ef =
             (let u = \<lparr>pk = (case ef_id ef of None \<Rightarrow> Some (next_id db) | Some k \<Rightarrow> Some k),
                       password = make_password h p,
                       last_login = Some now,
                       is_superuser = getdefault (ef_is_superuser ef) False,
                       groups = (case stored db (ef_id ef) of None \<Rightarrow> {} | Some r \<Rightarrow> groups r),
                       user_permissions =
                         (case stored db (ef_id ef) of None \<Rightarrow> {}
                          | Some r \<Rightarrow> user_permissions r),
                       name = getdefault (ef_name ef) [],
                       email = normalize_email e,
                       phone = getdefault (ef_phone ef) [],
                       is_staff = getdefault (ef_is_staff ef) False,
                       is_active = getdefault (ef_is_active ef) True,
                       date_joined = getdefault (ef_date_joined ef) built\<rparr>
              in (Inr u,
                  case ef_id ef of
                    None \<Rightarrow> db\<lparr>rows := rows db @ [u], next_id := Suc (next_id db)\<rparr>
                  | Some k \<Rightarrow>
                      if list_ex (\<lambda>r. pk r = Some k) (rows db)
                      then db\<lparr>rows := map (\<lambda>r. if pk r = Some k then u else r) (rows db)\<rparr>
                      else db\<lparr>rows := rows db @ [u], next_id := max (next_id db) (Suc k)\<rparr>))"
    unfolding c save_ok [OF 1 2]
    by (cases "ef_id ef") (simp_all add: Let_def)
qed

theorem create_user_outcomes_witness:
  "create_user example_hasher 150 200 example_db [] ''pw'' no_extra_fields
     = (Inl (ValueError ''Email must be set''), example_db)
   \<and> (\<exists>msg. create_user example_hasher 150 200 example_db ''bob@example.com'' ''pw''
               (no_extra_fields\<lparr>ef_unknown := [''nickname'']\<rparr>)
             = (Inl (TypeError msg), example_db))
   \<and> create_user example_hasher 150 200 example_db ''sara@EXAMPLE.com'' ''pw'' no_extra_fields
     = (Inl IntegrityError, example_db)
   \<and> create_user example_hasher 150 200 example_db ''Bob@EXAMPLE.com'' ''pw''
        (no_extra_fields\<lparr>ef_phone := Some ''09350000000''\<rparr>)
     = (Inr \<lparr>pk = Some 2, password = ''pbkdf2_sha256$pw'', last_login = Some 200,
             is_superuser = False, groups = {}, user_permissions = {}, name = [],
             email = ''Bob@example.com'', phone = ''09350000000'', is_staff = False,
             is_active = True, date_joined = 150\<rparr>,
        \<lparr>rows = [example_user,
                 \<lparr>pk = Some 2, password = ''pbkdf2_sha256$pw'', last_login = Some 200,
                  is_superuser = False, groups = {}, user_permissions = {}, name = [],
                  email = ''Bob@example.com'', phone = ''09350000000'', is_staff = False,
                  is_active = True, date_joined = 150\<rparr>],
         next_id = 3\<rparr>)
   \<and> create_user example_hasher 150 200 example_db ''sara@example.com'' ''pw''
        (no_extra_fields\<lparr>ef_phone := Some ''09123456789'', ef_id := Some 1\<rparr>)
     = (Inr \<lparr>pk = Some 1, password = ''pbkdf2_sha256$pw'', last_login = Some 200,
             is_superuser = False, groups = {}, user_permissions = {}, name = [],
             email = ''sara@example.com'', phone = ''09123456789'', is_staff = False,
             is_active = True, date_joined = 150\<rparr>,
        \<lparr>rows = [\<lparr>pk = Some 1, password = ''pbkdf2_sha256$pw'', last_login = Some 200,
                  is_superuser = False, groups = {}, user_permissions = {}, name = [],
                  email = ''sara@example.com'', phone = ''09123456789'', is_staff = False,
                  is_active = True, date_joined = 150\<rparr>],
         next_id = 2\<rparr>)"
proof -
  have n1: "normalize_email ''sara@EXAMPLE.com'' = ''sara@example.com''" by code_simp
  have n2: "normalize_email ''Bob@EXAMPLE.com'' = ''Bob@example.com''" by code_simp
  have n3: "normalize_email ''sara@example.com'' = ''sara@example.com''" by code_simp
  have n4: "normalize_email ''bob@example.com'' = ''bob@example.com''" by code_simp
  show ?thesis
    using create_user_outcomes [where e = "[]" and h = example_hasher and built = 150
          and now = 200 and db = example_db and p = "''pw''" and ef = no_extra_fields]
      create_user_outcomes [where e = "''bob@example.com''" and h = example_hasher
          and built = 150 and now = 200 and db = example_db and p = "''pw''"
          and ef = "no_extra_fields\<lparr>ef_unknown := [''nickname'']\<rparr>"]
      create_user_outcomes [where e = "''sara@EXAMPLE.com''" and h = example_hasher
          and built = 150 and now = 200 and db = example_db and p = "''pw''"
          and ef = no_extra_fields]
      create_user_outcomes [where e = "''Bob@EXAMPLE.com''" and h = example_hasher
          and built = 150 and now = 200 and db = example_db and p = "''pw''"
          and ef = "no_extra_fields\<lparr>ef_phone := Some ''09350000000''\<rparr>"]
      create_user_outcomes [where e = "''sara@example.com''" and h = example_hasher
          and built = 150 and now = 200 and db = example_db and p = "''pw''"
          and ef = "no_extra_fields\<lparr>ef_phone := Some ''09123456789'', ef_id := Some 1\<rparr>"]
    by (simp add: n1 n2 n3 n4 example_db_def example_user_def example_hasher_def
          no_extra_fields_def getdefault_def other_rows_def stored_def Let_def)
qed

text \<open>
  The claim C1 as it is written fails: a non-empty email that a persisted entity already
  holds is neither persisted nor returned.
\<close>

theorem create_user_duplicate_counterexample:
  "''sara@example.com'' \<noteq> []
   \<and> create_user example_hasher 150 200 example_db ''sara@example.com'' ''pw''
        (no_extra_fields\<lparr>ef_phone := Some ''09350000000''\<rparr>)
     = (Inl IntegrityError, example_db)"
  by code_simp

text \<open>
  C2. \<^verbatim>\<open>create_superuser\<close> gives \<^verbatim>\<open>is_staff\<close>, \<^verbatim>\<open>is_superuser\<close> and \<^verbatim>\<open>is_active\<close> the value
  passed, or True when none is passed. When \<^verbatim>\<open>is_staff=False\<close> or \<^verbatim>\<open>is_superuser=False\<close> was
  passed it raises \<^verbatim>\<open>ValueError\<close> and the table is the one it was given; otherwise its result
  is that of \<^verbatim>\<open>create_user\<close> on the keywords so completed.
\<close>

theorem create_superuser_spec:
  "superuser_defaults ef =
      ef\<lparr>ef_is_staff := Some (getdefault (ef_is_staff ef) True),
         ef_is_superuser := Some (getdefault (ef_is_superuser ef) True),
         ef_is_active := Some (getdefault (ef_is_active ef) True)\<rparr>
   \<and> (ef_is_staff ef = Some False \<or> ef_is_superuser ef = Some False \<longrightarrow>
        (\<exists>msg. create_superuser h built now db e p ef = (Inl (ValueError msg), db)))
   \<and> (ef_is_staff ef \<noteq> Some False \<and> ef_is_superuser ef \<noteq> Some False \<longrightarrow>
        create_superuser h built now db e p ef
          = create_user h built now db e p (superuser_defaults ef))"
proof (intro conjI impI)
  show "superuser_defaults ef =
      ef\<lparr>ef_is_staff := Some (getdefault (ef_is_staff ef) True),
         ef_is_superuser := Some (getdefault (ef_is_superuser ef) True),
         ef_is_active := Some (getdefault (ef_is_active ef) True)\<rparr>"
    by (simp add: superuser_defaults_def setdefault_def getdefault_def split: option.splits)
next
  assume "ef_is_staff ef = Some False \<or> ef_is_superuser ef = Some False"
  then show "\<exists>msg. create_superuser h built now db e p ef = (Inl (ValueError msg), db)"
    by (rule create_superuser_rejects)
next
  assume "ef_is_staff ef \<noteq> Some False \<and> ef_is_superuser ef \<noteq> Some False"
  then show "create_superuser h built now db e p ef
               = create_user h built now db e p (superuser_defaults ef)"
    by (simp add: create_superuser_delegates)
qed

theorem create_superuser_spec_witness:
  "(\<exists>msg. create_superuser example_hasher 150 200 example_db ''a@b.com'' ''x''
            (no_extra_fields\<lparr>ef_is_staff := Some False\<rparr>) = (Inl (ValueError msg), example_db))
   \<and> create_superuser example_hasher 150 200 example_db ''a@b.com'' ''x'' no_extra_fields
     = create_user example_hasher 150 200 example_db ''a@b.com'' ''x''
         (no_extra_fields\<lparr>ef_is_staff := Some True, ef_is_superuser := Some True,
                           ef_is_active := Some True\<rparr>)"
  using create_superuser_spec [where ef = "no_extra_fields\<lparr>ef_is_staff := Some False\<rparr>"
          and h = example_hasher and built = 150 and now = 200 and db = example_db
          and e = "''a@b.com''" and p = "''x''"]
    create_superuser_spec [where ef = no_extra_fields and h = example_hasher and built = 150
          and now = 200 and db = example_db and e = "''a@b.com''" and p = "''x''"]
  by (simp add: no_extra_fields_def getdefault_def)

text \<open>
  C10. Passing \<^verbatim>\<open>is_active=False\<close> to \<^verbatim>\<open>create_superuser\<close> causes no failure: whenever the
  call without that keyword succeeds, the call with it succeeds too, and the entity it
  persists and returns is staff, superuser and inactive.
\<close>

theorem create_superuser_inactive:
  assumes "ef_is_active ef = Some False"
    and "create_superuser h built now db e p (ef\<lparr>ef_is_active := None\<rparr>) = (Inr u0, db0)"
  shows "\<exists>u db'. create_superuser h built now db e p ef = (Inr u, db') \<and> u \<in> set (rows db')
           \<and> is_staff u \<and> is_superuser u \<and> \<not> is_active u"
proof -
  let ?efn = "ef\<lparr>ef_is_active := None\<rparr>"
  let ?ef = "superuser_defaults ef"
  have st: "ef_is_staff ef \<noteq> Some False" "ef_is_superuser ef \<noteq> Some False"
    using assms(2) create_superuser_rejects [where ef = ?efn and h = h and built = built
        and now = now and db = db and e = e and p = p] by auto
  then have "create_user h built now db e p (superuser_defaults ?efn) = (Inr u0, db0)"
    using assms(2) create_superuser_delegates [where ef = ?efn and h = h and built = built
        and now = now and db = db and e = e and p = p] by simp
  note ok = create_user_Inr(1-4) [OF this]
  have d: "create_superuser h built now db e p ef = create_user h built now db e p ?ef"
    using st by (rule create_superuser_delegates)
  have un: "ef_unknown ?ef = []"
    using ok(2) by (simp add: superuser_defaults_def)
  have em: "normalize_email e \<notin> set (map email (other_rows (ef_id ?ef) db))"
    using ok(3) by (simp add: superuser_defaults_def)
  have ph: "getdefault (ef_phone ?ef) [] \<notin> set (map phone (other_rows (ef_id ?ef) db))"
    using ok(4) by (simp add: superuser_defaults_def)
  have fl: "ef_is_staff ?ef = Some True" "ef_is_superuser ?ef = Some True"
      "ef_is_active ?ef = Some False"
    using assms(1) st by (auto simp: superuser_defaults_def setdefault_def split: option.splits)
  obtain u db' where r: "create_user h built now db e p ?ef = (Inr u, db')"
    using create_user_succeeds [OF ok(1) un em ph] by blast
  note p = create_user_Inr [OF r]
  have "u \<in> set (rows db')" by (rule p(5))
  moreover have "is_staff u" "is_superuser u" "\<not> is_active u"
    using p(9,10,11) by (simp_all add: fl getdefault_def)
  ultimately show ?thesis using d r by simp
qed

theorem create_superuser_inactive_witness:
  "\<exists>u db'. create_superuser example_hasher 150 200 example_db ''root@example.com'' ''pw''
              (no_extra_fields\<lparr>ef_phone := Some ''09350000000'', ef_is_active := Some False\<rparr>)
            = (Inr u, db')
     \<and> u \<in> set (rows db') \<and> is_staff u \<and> is_superuser u \<and> \<not> is_active u"
proof -
  let ?ef = "no_extra_fields\<lparr>ef_phone := Some ''09350000000'', ef_is_active := Some False\<rparr>"
  have a: "ef_is_active ?ef = Some False" by simp
  have b: "create_superuser example_hasher 150 200 example_db ''root@example.com'' ''pw''
          (?ef\<lparr>ef_is_active := None\<rparr>)
        = (Inr \<lparr>pk = Some 2, password = ''pbkdf2_sha256$pw'', last_login = Some 200,
                is_superuser = True, groups = {}, user_permissions = {}, name = [],
                email = ''root@example.com'', phone = ''09350000000'', is_staff = True,
                is_active = True, date_joined = 150\<rparr>,
           \<lparr>rows = [example_user,
                \<lparr>pk = Some 2, password = ''pbkdf2_sha256$pw'', last_login = Some 200,
                 is_superuser = True, groups = {}, user_permissions = {}, name = [],
                 email = ''root@example.com'', phone = ''09350000000'', is_staff = True,
                 is_active = True, date_joined = 150\<rparr>],
            next_id = 3\<rparr>)"
    by code_simp
  show ?thesis
    by (rule create_superuser_inactive [OF a b])
qed

subsection \<open>Email normalisation\<close>

lemma dropWhile_append_stop:
  "\<not> P y \<Longrightarrow> dropWhile P (xs @ y # ys) = dropWhile P xs @ y # ys"
  by (induction xs) auto

lemma at_not_space: "\<not> isspace (CHR ''@'')"
  by (simp add: isspace_def code_def)

lemma lstrip_at: "lstrip (l @ CHR ''@'' # d) = lstrip l @ CHR ''@'' # d"
  by (simp add: lstrip_def dropWhile_append_stop at_not_space)

lemma rstrip_at: "rstrip (l @ CHR ''@'' # d) = l @ CHR ''@'' # rstrip d"
  by (simp add: rstrip_def dropWhile_append_stop at_not_space)

lemma strip_at: "strip (l @ CHR ''@'' # d) = lstrip l @ CHR ''@'' # rstrip d"
  by (simp add: strip_def lstrip_at rstrip_at)

lemma set_rstrip: "set (rstrip d) \<subseteq> set d"
  using set_dropWhileD [of _ isspace "rev d"] by (auto simp: rstrip_def)

lemma takeWhile_upto: "c \<notin> set xs \<Longrightarrow> takeWhile (\<lambda>x. x \<noteq> c) (xs @ c # ys) = xs"
  by (induction xs) auto

lemma dropWhile_upto: "c \<notin> set xs \<Longrightarrow> dropWhile (\<lambda>x. x \<noteq> c) (xs @ c # ys) = c # ys"
  by (induction xs) auto

lemma rsplit_at_append:
  assumes "CHR ''@'' \<notin> set d"
  shows "rsplit_at (l @ CHR ''@'' # d) = Some (l, d)"
  using assms by (simp add: rsplit_at_def takeWhile_upto dropWhile_upto)

lemma normalize_email_at:
  assumes "CHR ''@'' \<notin> set d"
  shows "normalize_email (l @ CHR ''@'' # d) = lstrip l @ CHR ''@'' # lower (rstrip d)"
proof -
  have "CHR ''@'' \<notin> set (rstrip d)" using assms set_rstrip by blast
  then show ?thesis
    by (simp add: normalize_email_def strip_at rsplit_at_append)
qed

lemma code_lower_char:
  "code (lower_char c) =
     (if (65 \<le> code c \<and> code c \<le> 90) \<or> (192 \<le> code c \<and> code c \<le> 222 \<and> code c \<noteq> 215)
      then code c + 32 else code c)"
  by (auto simp: lower_char_def code_def Let_def)

lemma isspace_lower_char: "isspace (lower_char c) = isspace c"
  unfolding isspace_def Let_def code_lower_char by auto

lemma lower_char_at: "lower_char c = CHR ''@'' \<longleftrightarrow> c = CHR ''@''"
proof
  assume "lower_char c = CHR ''@''"
  then have "code (lower_char c) = 64" by (simp add: code_def)
  then have "code c = 64" unfolding code_lower_char by (auto split: if_splits)
  then have "of_char c = (of_char (CHR ''@'') :: nat)" by (simp add: code_def)
  then show "c = CHR ''@''" by (simp only: of_char_eq_iff)
next
  assume "c = CHR ''@''"
  then show "lower_char c = CHR ''@''" by (simp add: lower_char_def code_def)
qed

lemma at_in_lower: "CHR ''@'' \<in> set (lower d) \<longleftrightarrow> CHR ''@'' \<in> set d"
  unfolding lower_def set_map image_iff using lower_char_at by metis

lemma lower_rstrip: "lower (rstrip d) = rstrip (lower d)"
proof -
  have "isspace \<circ> lower_char = isspace" by (rule ext) (simp add: isspace_lower_char)
  then show ?thesis
    by (simp add: lower_def rstrip_def rev_map dropWhile_map)
qed

lemma normalize_email_domain_case:
  assumes "CHR ''@'' \<notin> set d1" and "lower d2 = lower d1"
  shows "normalize_email (l @ CHR ''@'' # d2) = normalize_email (l @ CHR ''@'' # d1)"
proof -
  have "CHR ''@'' \<notin> set d2" using assms at_in_lower [of d1] at_in_lower [of d2] by simp
  then show ?thesis
    using assms by (simp add: normalize_email_at lower_rstrip)
qed

text \<open>
  C6, as amended. For an email \<open>local@domain\<close> (the domain being what follows the last
  \<^verbatim>\<open>@\<close>), the entity that \<^verbatim>\<open>create_user\<close> persists holds the address with the whitespace
  around it stripped and the domain in lower case; the local part is otherwise unchanged.
  When no whitespace surrounds the address, that is \<open>local@lower(domain)\<close>.
\<close>

theorem create_user_email_normalised:
  assumes "CHR ''@'' \<notin> set d"
    and "create_user h built now db (l @ ''@'' @ d) p ef = (Inr u, db')"
  shows "u \<in> set (rows db') \<and> email u = lstrip l @ ''@'' @ lower (rstrip d)
         \<and> (lstrip l = l \<and> rstrip d = d \<longrightarrow> email u = l @ ''@'' @ lower d)"
proof -
  note r = create_user_Inr [OF assms(2)]
  have e: "email u = lstrip l @ ''@'' @ lower (rstrip d)"
    using r(7) by (simp add: normalize_email_at [OF assms(1)])
  show ?thesis using e r(5) by simp
qed

theorem create_user_email_normalised_witness:
  "email \<lparr>pk = Some 2, password = ''pbkdf2_sha256$pw'', last_login = Some 200,
          is_superuser = False, groups = {}, user_permissions = {}, name = [],
          email = ''Bob.Smith@example.com'', phone = ''09350000000'', is_staff = False,
          is_active = True, date_joined = 150\<rparr>
     = ''Bob.Smith'' @ ''@'' @ lower ''Example.COM''"
proof -
  have a: "CHR ''@'' \<notin> set ''Example.COM''" by simp
  have b: "create_user example_hasher 150 200 example_db
          (''Bob.Smith'' @ ''@'' @ ''Example.COM'') ''pw''
          (no_extra_fields\<lparr>ef_phone := Some ''09350000000''\<rparr>)
        = (Inr \<lparr>pk = Some 2, password = ''pbkdf2_sha256$pw'', last_login = Some 200,
                is_superuser = False, groups = {}, user_permissions = {}, name = [],
                email = ''Bob.Smith@example.com'', phone = ''09350000000'', is_staff = False,
                is_active = True, date_joined = 150\<rparr>,
           \<lparr>rows = [example_user,
                \<lparr>pk = Some 2, password = ''pbkdf2_sha256$pw'', last_login = Some 200,
                 is_superuser = False, groups = {}, user_permissions = {}, name = [],
                 email = ''Bob.Smith@example.com'', phone = ''09350000000'', is_staff = False,
                 is_active = True, date_joined = 150\<rparr>],
            next_id = 3\<rparr>)"
    by code_simp
  have c: "lstrip ''Bob.Smith'' = ''Bob.Smith'' \<and> rstrip ''Example.COM'' = ''Example.COM''"
    by code_simp
  show ?thesis
    using create_user_email_normalised [OF a b] c by blast
qed

text \<open>
  The claim C6 as it is written fails: the local part \<open>'' Bob''\<close> of the address below,
  which begins with a space, is stored without it.
\<close>

theorem create_user_local_part_counterexample:
  "map email (rows (snd (create_user example_hasher 150 200 empty_db
        ('' Bob'' @ ''@'' @ ''Example.COM'') ''pw'' no_extra_fields))) = [''Bob@example.com'']
   \<and> ''Bob@example.com'' \<noteq> '' Bob'' @ ''@'' @ lower ''Example.COM''"
  by code_simp

text \<open>
  C5, as amended. Two emails with the same local part whose domains differ in letter case
  only, and two successive calls of \<^verbatim>\<open>create_user\<close>, the second on the table that the first
  has left: when the first call succeeds on the first email, the second call on the second
  email fails with the uniqueness error and leaves the table as it was. The second call
  may pass any password and any accepted keywords, except the key of the entity just
  created as \<^verbatim>\<open>id\<close>: then it would overwrite that entity instead.
\<close>

theorem create_user_twice_domain_case:
  assumes "CHR ''@'' \<notin> set d1" and "lower d2 = lower d1"
    and "create_user h1 built1 now1 db (l @ ''@'' @ d1) p1 ef1 = (Inr u, db')"
    and "ef_unknown ef2 = []" and "ef_id ef2 \<noteq> pk u"
  shows "create_user h2 built2 now2 db' (l @ ''@'' @ d2) p2 ef2 = (Inl IntegrityError, db')"
proof -
  note r = create_user_Inr [OF assms(3)]
  have eu: "email u = normalize_email (l @ ''@'' @ d2)"
    using r(7) by (simp add: normalize_email_domain_case [OF assms(1,2)])
  have "u \<in> set (other_rows (ef_id ef2) db')"
    using r(5) assms(5) by (cases "ef_id ef2") (auto simp: other_rows_def)
  then have "normalize_email (l @ ''@'' @ d2) \<in> set (map email (other_rows (ef_id ef2) db'))"
    using eu by (metis image_eqI set_map)
  then show ?thesis
    using assms(4) by (intro create_user_conflict) simp_all
qed

theorem create_user_twice_domain_case_witness:
  "create_user example_hasher 250 300
      \<lparr>rows = [\<lparr>pk = Some 1, password = ''pbkdf2_sha256$pw'', last_login = Some 200,
                is_superuser = False, groups = {}, user_permissions = {}, name = [],
                email = ''Alice@example.com'', phone = ''09120000001'', is_staff = False,
                is_active = True, date_joined = 150\<rparr>],
       next_id = 2\<rparr>
      (''Alice'' @ ''@'' @ ''EXAMPLE.com'') ''other''
      (no_extra_fields\<lparr>ef_phone := Some ''09120000002''\<rparr>)
   = (Inl IntegrityError,
      \<lparr>rows = [\<lparr>pk = Some 1, password = ''pbkdf2_sha256$pw'', last_login = Some 200,
                is_superuser = False, groups = {}, user_permissions = {}, name = [],
                email = ''Alice@example.com'', phone = ''09120000001'', is_staff = False,
                is_active = True, date_joined = 150\<rparr>],
       next_id = 2\<rparr>)"
proof -
  let ?u = "\<lparr>pk = Some 1, password = ''pbkdf2_sha256$pw'', last_login = Some 200,
                is_superuser = False, groups = {}, user_permissions = {}, name = [],
                email = ''Alice@example.com'', phone = ''09120000001'', is_staff = False,
                is_active = True, date_joined = 150\<rparr>"
  let ?ef2 = "no_extra_fields\<lparr>ef_phone := Some ''09120000002''\<rparr>"
  have a: "CHR ''@'' \<notin> set ''Example.Com''" by simp
  have b: "lower ''EXAMPLE.com'' = lower ''Example.Com''" by code_simp
  have c: "create_user example_hasher 150 200 empty_db (''Alice'' @ ''@'' @ ''Example.Com'') ''pw''
          (no_extra_fields\<lparr>ef_phone := Some ''09120000001''\<rparr>)
        = (Inr ?u, \<lparr>rows = [?u], next_id = 2\<rparr>)"
    by code_simp
  have d: "ef_unknown ?ef2 = []" by (simp add: no_extra_fields_def)
  have e: "ef_id ?ef2 \<noteq> pk ?u" by (simp add: no_extra_fields_def)
  show ?thesis
    by (rule create_user_twice_domain_case [OF a b c d e])
qed

text \<open>
  The claim C5 as it is written fails: two addresses that differ in the case of the local
  part are two different addresses to the unique constraint, and both calls succeed.
\<close>

theorem create_user_local_case_counterexample:
  "lower ''Alice@example.com'' = lower ''alice@example.com''
   \<and> create_user example_hasher 250 300
        (snd (create_user example_hasher 150 200 empty_db ''Alice@example.com'' ''pw''
                (no_extra_fields\<lparr>ef_phone := Some ''09120000001''\<rparr>)))
        ''alice@example.com'' ''pw'' (no_extra_fields\<lparr>ef_phone := Some ''09120000002''\<rparr>)
     = (Inr \<lparr>pk = Some 2, password = ''pbkdf2_sha256$pw'', last_login = Some 300,
             is_superuser = False, groups = {}, user_permissions = {}, name = [],
             email = ''alice@example.com'', phone = ''09120000002'', is_staff = False,
             is_active = True, date_joined = 250\<rparr>,
        \<lparr>rows = [\<lparr>pk = Some 1, password = ''pbkdf2_sha256$pw'', last_login = Some 200,
                  is_superuser = False, groups = {}, user_permissions = {}, name = [],
                  email = ''Alice@example.com'', phone = ''09120000001'', is_staff = False,
                  is_active = True, date_joined = 150\<rparr>,
                 \<lparr>pk = Some 2, password = ''pbkdf2_sha256$pw'', last_login = Some 300,
                  is_superuser = False, groups = {}, user_permissions = {}, name = [],
                  email = ''alice@example.com'', phone = ''09120000002'', is_staff = False,
                  is_active = True, date_joined = 250\<rparr>],
         next_id = 3\<rparr>)"
  by code_simp

subsection \<open>The forms\<close>

lemma construct_creation:
  "construct_instance CustomUserCreationForm_fields cd u =
     u\<lparr>email := cd_email cd, name := cd_name cd, phone := cd_phone cd\<rparr>"
  by (simp add: construct_instance_def CustomUserCreationForm_fields_def set_field_def)

lemma construct_change:
  "construct_instance CustomUserChangeForm_fields cd u =
     u\<lparr>email := cd_email cd, name := cd_name cd, phone := cd_phone cd,
       is_active := cd_is_active cd, is_staff := cd_is_staff cd,
       is_superuser := cd_is_superuser cd, user_permissions := cd_user_permissions cd\<rparr>"
  by (simp add: construct_instance_def CustomUserChangeForm_fields_def set_field_def)

lemma new_instance:
  "CustomUser_init built db [] no_extra_fields =
     Inr \<lparr>pk = None, password = [], last_login = None, is_superuser = False, groups = {},
          user_permissions = {}, name = [], email = [], phone = [], is_staff = False,
          is_active = True, date_joined = built\<rparr>"
  by (simp add: CustomUser_init_def no_extra_fields_def getdefault_def stored_def)

lemma UserCreationForm_save_nocommit:
  "UserCreationForm_save h built now db cd False =
     (Inr \<lparr>pk = None, password = make_password h (cd_password1 cd), last_login = None,
           is_superuser = False, groups = {}, user_permissions = {}, name = cd_name cd,
           email = cd_email cd, phone = cd_phone cd, is_staff = False, is_active = True,
           date_joined = built\<rparr>, db)"
  by (simp add: UserCreationForm_save_def new_instance construct_creation set_password_def
        Let_def)

lemma CustomUserCreationForm_save_eq:
  "CustomUserCreationForm_save h built now db cd commit =
     (let user = \<lparr>pk = None, password = make_password h (cd_password1 cd), last_login = None,
           is_superuser = False, groups = {}, user_permissions = {}, name = cd_name cd,
           email = cd_email cd, phone = cd_phone cd, is_staff = False, is_active = True,
           date_joined = built\<rparr>
      in if commit then save now user db else (Inr user, db))"
  by (simp add: CustomUserCreationForm_save_def UserCreationForm_save_nocommit Let_def)

text \<open>
  C8. On validated input the save of the creation form returns an entity that carries the
  cleaned name and phone (and the cleaned email, and the hash of the first password). With
  \<^verbatim>\<open>commit\<close> true the entity was appended to the table under a fresh key; with
  \<^verbatim>\<open>commit\<close> false the table is the one given and the entity has no key.
\<close>

theorem creation_form_save_spec:
  assumes "creation_form_valid db cd"
  shows "\<exists>u db'. CustomUserCreationForm_save h built now db cd commit = (Inr u, db')
           \<and> name u = cd_name cd \<and> phone u = cd_phone cd
           \<and> email u = cd_email cd \<and> password u = make_password h (cd_password1 cd)
           \<and> (commit \<longrightarrow> pk u = Some (next_id db)
                 \<and> db' = db\<lparr>rows := rows db @ [u], next_id := Suc (next_id db)\<rparr>)
           \<and> (\<not> commit \<longrightarrow> pk u = None \<and> db' = db)"
proof (cases commit)
  case True
  let ?user = "\<lparr>pk = None, password = make_password h (cd_password1 cd), last_login = None,
           is_superuser = False, groups = {}, user_permissions = {}, name = cd_name cd,
           email = cd_email cd, phone = cd_phone cd, is_staff = False, is_active = True,
           date_joined = built\<rparr>"
  have "pk ?user = None" by simp
  moreover have "email ?user \<notin> set (map email (rows db))"
    and "phone ?user \<notin> set (map phone (rows db))"
    using assms by (simp_all add: creation_form_valid_def)
  ultimately have "save now ?user db =
     (Inr (?user\<lparr>last_login := Some now, pk := Some (next_id db)\<rparr>),
      db\<lparr>rows := rows db @ [?user\<lparr>last_login := Some now, pk := Some (next_id db)\<rparr>],
         next_id := Suc (next_id db)\<rparr>)"
    by (rule save_insert)
  then show ?thesis
    using True by (simp add: CustomUserCreationForm_save_eq Let_def)
next
  case False
  then show ?thesis
    by (simp add: CustomUserCreationForm_save_eq Let_def)
qed

theorem creation_form_save_spec_witness:
  "\<exists>u db'. CustomUserCreationForm_save example_hasher 150 200 example_db
       \<lparr>cd_email = ''b@example.com'', cd_name = ''Babak'', cd_phone = ''09350000000'',
        cd_is_active = True, cd_is_staff = False, cd_is_superuser = False,
        cd_user_permissions = {}, cd_password1 = ''pw'', cd_password2 = ''pw''\<rparr> True = (Inr u, db')
     \<and> name u = ''Babak'' \<and> phone u = ''09350000000'' \<and> pk u = Some 2
     \<and> db' = example_db\<lparr>rows := rows example_db @ [u], next_id := 3\<rparr>"
proof -
  let ?cd = "\<lparr>cd_email = ''b@example.com'', cd_name = ''Babak'', cd_phone = ''09350000000'',
        cd_is_active = True, cd_is_staff = False, cd_is_superuser = False,
        cd_user_permissions = {}, cd_password1 = ''pw'', cd_password2 = ''pw''\<rparr>"
  have v: "creation_form_valid example_db ?cd" by code_simp
  have n: "next_id example_db = 2" by (simp add: example_db_def)
  show ?thesis
    using creation_form_save_spec [OF v, where h = example_hasher and built = 150 and now = 200
        and commit = True]
    by (simp add: n, blast)
qed

lemma save_update:
  assumes "pk u = Some k" and "list_ex (\<lambda>r. pk r = Some k) (rows db)"
    and "email u \<notin> set (map email (filter (\<lambda>r. pk r \<noteq> Some k) (rows db)))"
    and "phone u \<notin> set (map phone (filter (\<lambda>r. pk r \<noteq> Some k) (rows db)))"
  shows "save now u db =
     (Inr (u\<lparr>last_login := Some now\<rparr>),
      db\<lparr>rows := map (\<lambda>r. if pk r = Some k then u\<lparr>last_login := Some now\<rparr> else r) (rows db)\<rparr>)"
  using assms by (simp add: save_def Let_def unique_conflict_iff)

lemma change_form_save_update:
  assumes "pk instance = Some k" and "instance \<in> set (rows db)"
    and "change_form_valid db instance cd"
  shows "CustomUserChangeForm_save now db instance cd =
     (let u = instance\<lparr>email := cd_email cd, name := cd_name cd, phone := cd_phone cd,
                  is_active := cd_is_active cd, is_staff := cd_is_staff cd,
                  is_superuser := cd_is_superuser cd,
                  user_permissions := cd_user_permissions cd, last_login := Some now\<rparr>
      in (Inr u, db\<lparr>rows := map (\<lambda>r. if pk r = Some k then u else r) (rows db)\<rparr>))"
proof -
  let ?u = "construct_instance CustomUserChangeForm_fields cd instance"
  have 1: "pk ?u = Some k" using assms(1) by (simp add: construct_change)
  have 2: "list_ex (\<lambda>r. pk r = Some k) (rows db)"
    using assms(1,2) by (auto simp: list_ex_iff)
  have 3: "email ?u \<notin> set (map email (filter (\<lambda>r. pk r \<noteq> Some k) (rows db)))"
    and 4: "phone ?u \<notin> set (map phone (filter (\<lambda>r. pk r \<noteq> Some k) (rows db)))"
    using assms(1,3) by (simp_all add: change_form_valid_def construct_change Let_def)
  show ?thesis
    unfolding CustomUserChangeForm_save_def save_update [OF 1 2 3 4]
    by (simp add: construct_change Let_def)
qed

text \<open>
  C9, as amended. The change form has seven fields: email, name, phone, the three flags
  and \<^verbatim>\<open>user_permissions\<close>. Saving it on a persisted entity with validated input writes
  those seven columns (and the \<^verbatim>\<open>auto_now\<close> column \<^verbatim>\<open>last_login\<close>) into the row of that
  entity: the keys of the table and every other row stay as they were, no row is added,
  and the password, the date of joining and the groups of the entity are kept.
\<close>

theorem change_form_in_place:
  assumes "pk instance = Some k" and "instance \<in> set (rows db)"
    and "change_form_valid db instance cd"
  shows "set CustomUserChangeForm_fields =
           {''email'', ''name'', ''phone'', ''is_active'', ''is_staff'', ''is_superuser'',
            ''user_permissions''}
         \<and> (\<exists>u db'. CustomUserChangeForm_save now db instance cd = (Inr u, db')
               \<and> pk u = pk instance
               \<and> rows db' = map (\<lambda>r. if pk r = pk instance then u else r) (rows db)
               \<and> map pk (rows db') = map pk (rows db)
               \<and> next_id db' = next_id db
               \<and> email u = cd_email cd \<and> name u = cd_name cd \<and> phone u = cd_phone cd
               \<and> is_active u = cd_is_active cd \<and> is_staff u = cd_is_staff cd
               \<and> is_superuser u = cd_is_superuser cd
               \<and> user_permissions u = cd_user_permissions cd
               \<and> password u = password instance \<and> date_joined u = date_joined instance
               \<and> groups u = groups instance)"
proof -
  have f: "set CustomUserChangeForm_fields =
           {''email'', ''name'', ''phone'', ''is_active'', ''is_staff'', ''is_superuser'',
            ''user_permissions''}"
    by (simp add: CustomUserChangeForm_fields_def)
  let ?u = "instance\<lparr>email := cd_email cd, name := cd_name cd, phone := cd_phone cd,
                  is_active := cd_is_active cd, is_staff := cd_is_staff cd,
                  is_superuser := cd_is_superuser cd,
                  user_permissions := cd_user_permissions cd, last_login := Some now\<rparr>"
  have p: "map pk (map (\<lambda>r. if pk r = Some k then ?u else r) (rows db)) = map pk (rows db)"
    using assms(1) by (induction "rows db") auto
  have s: "CustomUserChangeForm_save now db instance cd =
      (Inr ?u, db\<lparr>rows := map (\<lambda>r. if pk r = Some k then ?u else r) (rows db)\<rparr>)"
    using change_form_save_update [OF assms, where now = now] by (simp add: Let_def)
  show ?thesis
    unfolding s using f p assms(1) by simp
qed

theorem change_form_in_place_witness:
  "\<exists>u db'. CustomUserChangeForm_save 200 example_db example_user
       \<lparr>cd_email = ''sara@example.com'', cd_name = ''Sara K'', cd_phone = ''09123456789'',
        cd_is_active = True, cd_is_staff = True, cd_is_superuser = False,
        cd_user_permissions = {7}, cd_password1 = [], cd_password2 = []\<rparr> = (Inr u, db')
     \<and> pk u = pk example_user
     \<and> rows db' = map (\<lambda>r. if pk r = pk example_user then u else r) (rows example_db)
     \<and> map pk (rows db') = map pk (rows example_db)
     \<and> next_id db' = next_id example_db
     \<and> email u = ''sara@example.com'' \<and> name u = ''Sara K'' \<and> phone u = ''09123456789''
     \<and> is_active u = True \<and> is_staff u = True \<and> is_superuser u = False
     \<and> user_permissions u = {7}
     \<and> password u = password example_user \<and> date_joined u = date_joined example_user
     \<and> groups u = groups example_user"
proof -
  let ?cd = "\<lparr>cd_email = ''sara@example.com'', cd_name = ''Sara K'', cd_phone = ''09123456789'',
        cd_is_active = True, cd_is_staff = True, cd_is_superuser = False,
        cd_user_permissions = {7}, cd_password1 = [], cd_password2 = []\<rparr>"
  have a: "pk example_user = Some 1" by (simp add: example_user_def)
  have b: "example_user \<in> set (rows example_db)" by (simp add: example_db_def)
  have c: "change_form_valid example_db example_user ?cd" by code_simp
  have "cd_email ?cd = ''sara@example.com''" "cd_name ?cd = ''Sara K''"
    "cd_phone ?cd = ''09123456789''" "cd_is_active ?cd = True" "cd_is_staff ?cd = True"
    "cd_is_superuser ?cd = False" "cd_user_permissions ?cd = {7}"
    by simp_all
  then show ?thesis
    using conjunct2 [OF change_form_in_place [OF a b c, where now = 200]] by metis
qed

text \<open>
  The claim C9 as it is written fails: the fields of the change form are not exactly the
  six it names. \<^verbatim>\<open>user_permissions\<close> is a field too, and the form writes it.
\<close>

theorem change_form_fields_counterexample:
  "set CustomUserChangeForm_fields \<noteq>
     set [''email'', ''name'', ''phone'', ''is_active'', ''is_staff'', ''is_superuser'']
   \<and> user_permissions example_user = {}
   \<and> map user_permissions (rows (snd (CustomUserChangeForm_save 200 example_db example_user
       \<lparr>cd_email = ''sara@example.com'', cd_name = ''Sara'', cd_phone = ''09123456789'',
        cd_is_active = True, cd_is_staff = False, cd_is_superuser = False,
        cd_user_permissions = {7}, cd_password1 = [], cd_password2 = []\<rparr>))) = [{7}]"
  by code_simp

text \<open>
  C7 is not what the code does. \<^verbatim>\<open>last_login\<close> is declared \<^verbatim>\<open>auto_now=True\<close>, so every save
  sets it. Here an admin edit at time 200 changes the name of an entity whose last login
  was at time 100: the row then holds 200 as the last login.
\<close>

theorem admin_edit_moves_last_login:
  "last_login example_user = Some 100
   \<and> CustomUserChangeForm_save 200 example_db example_user
       \<lparr>cd_email = ''sara@example.com'', cd_name = ''Sara K'', cd_phone = ''09123456789'',
        cd_is_active = True, cd_is_staff = False, cd_is_superuser = False,
        cd_user_permissions = {}, cd_password1 = [], cd_password2 = []\<rparr>
     = (Inr \<lparr>pk = Some 1, password = ''pbkdf2_sha256$secret'', last_login = Some 200,
             is_superuser = False, groups = {}, user_permissions = {}, name = ''Sara K'',
             email = ''sara@example.com'', phone = ''09123456789'', is_staff = False,
             is_active = True, date_joined = 100\<rparr>,
        \<lparr>rows = [\<lparr>pk = Some 1, password = ''pbkdf2_sha256$secret'', last_login = Some 200,
                  is_superuser = False, groups = {}, user_permissions = {}, name = ''Sara K'',
                  email = ''sara@example.com'', phone = ''09123456789'', is_staff = False,
                  is_active = True, date_joined = 100\<rparr>],
         next_id = 2\<rparr>)"
  by code_simp

subsection \<open>Invariants of the table\<close>

lemma save_set:
  assumes "save now u db = (res, db')" and "r \<in> set (rows db')"
  shows "r \<in> set (rows db) \<or> (phone r = phone u \<and> password r = password u)"
  using assms by (auto simp: save_def Let_def split: option.splits if_splits)

lemma replace_keeps_keys:
  "pk u = Some k \<Longrightarrow> map pk (map (\<lambda>r. if pk r = Some k then u else r) rs) = map pk rs"
  by (induction rs) auto

lemma replace_absent:
  "Some k \<notin> set (map pk rs) \<Longrightarrow> map (\<lambda>r. if pk r = Some k then u else r) rs = rs"
  by (induction rs) auto

lemma filter_absent:
  "Some k \<notin> set (map pk rs) \<Longrightarrow> filter (\<lambda>r. pk r \<noteq> Some k) rs = rs"
  by (induction rs) auto

lemma replace_image:
  "set (map f (map (\<lambda>r. if pk r = Some k then u else r) rs))
     \<subseteq> insert (f u) (set (map f rs))"
  by (induction rs) auto

lemma distinct_replace:
  assumes "distinct (map pk rs)" and "distinct (map f rs)"
    and "f u \<notin> set (map f (filter (\<lambda>r. pk r \<noteq> Some k) rs))"
  shows "distinct (map f (map (\<lambda>r. if pk r = Some k then u else r) rs))"
  using assms
proof (induction rs)
  case Nil
  then show ?case by simp
next
  case (Cons r rs)
  show ?case
  proof (cases "pk r = Some k")
    case True
    then have ab: "Some k \<notin> set (map pk rs)" using Cons.prems(1) by auto
    have "f u \<notin> set (map f rs)"
      using Cons.prems(3) True by (simp add: filter_absent [OF ab])
    then show ?thesis
      using True Cons.prems(2) by (simp add: replace_absent [OF ab])
  next
    case False
    have ih: "distinct (map f (map (\<lambda>r. if pk r = Some k then u else r) rs))"
      using Cons.IH Cons.prems False by simp
    have "f r \<noteq> f u" using Cons.prems(3) False by auto
    moreover have "f r \<notin> set (map f rs)"
      using Cons.prems(2) by simp
    ultimately have n: "f r \<notin> set (map f (map (\<lambda>r. if pk r = Some k then u else r) rs))"
      using replace_image [of f k u rs] by blast
    have "map f (map (\<lambda>r. if pk r = Some k then u else r) (r # rs))
            = f r # map f (map (\<lambda>r. if pk r = Some k then u else r) rs)"
      using False by simp
    then show ?thesis using ih n by (metis distinct.simps(2))
  qed
qed

lemma keys_below:
  assumes "keys_ok db" and "r \<in> set (rows db)"
  shows "\<exists>k. pk r = Some k \<and> k < next_id db"
  using assms by (auto simp: keys_ok_def list_all_iff split: option.splits)

lemma save_keeps_invariant:
  assumes "keys_ok db" and "unique_ok db" and "save now u db = (res, db')"
  shows "keys_ok db' \<and> unique_ok db'"
proof (cases "pk u")
  case None
  show ?thesis
  proof (cases "unique_conflict (u\<lparr>last_login := Some now\<rparr>) (rows db)")
    case True
    then have "db' = db" using assms(3) None by (simp add: save_def Let_def)
    then show ?thesis using assms by simp
  next
    case False
    let ?u = "u\<lparr>last_login := Some now, pk := Some (next_id db)\<rparr>"
    have d: "db' = db\<lparr>rows := rows db @ [?u], next_id := Suc (next_id db)\<rparr>"
      using assms(3) None False by (auto simp: save_def Let_def)
    have fresh: "Some (next_id db) \<notin> set (map pk (rows db))"
      using keys_below [OF assms(1)] by fastforce
    have un: "email u \<notin> set (map email (rows db))" "phone u \<notin> set (map phone (rows db))"
      using False by (simp_all add: unique_conflict_iff)
    have k: "keys_ok db'"
      using assms(1) fresh
      by (auto simp: d keys_ok_def list_all_iff split: option.splits)
    have "unique_ok db'"
      using assms(2) un by (simp add: d unique_ok_def)
    then show ?thesis using k by simp
  qed
next
  case (Some k)
  let ?u = "u\<lparr>last_login := Some now\<rparr>"
  let ?others = "filter (\<lambda>r. pk r \<noteq> Some k) (rows db)"
  show ?thesis
  proof (cases "unique_conflict ?u ?others")
    case True
    then have "db' = db" using assms(3) Some by (simp add: save_def Let_def)
    then show ?thesis using assms by simp
  next
    case False
    then have un: "email ?u \<notin> set (map email ?others)" "phone ?u \<notin> set (map phone ?others)"
      by (simp_all add: unique_conflict_iff)
    have pku: "pk ?u = Some k" using Some by simp
    show ?thesis
    proof (cases "list_ex (\<lambda>r. pk r = Some k) (rows db)")
      case True
      have d: "db' = db\<lparr>rows := map (\<lambda>r. if pk r = Some k then ?u else r) (rows db)\<rparr>"
        using assms(3) Some False True by (auto simp: save_def Let_def)
      have dk: "distinct (map pk (rows db))" using assms(1) by (simp add: keys_ok_def)
      obtain r where r: "r \<in> set (rows db)" "pk r = Some k"
        using True by (auto simp: list_ex_iff)
      then have kb: "k < next_id db" using keys_below [OF assms(1) r(1)] by simp
      have rw: "rows db' = map (\<lambda>r. if pk r = Some k then ?u else r) (rows db)"
        and nx: "next_id db' = next_id db"
        by (simp_all add: d)
      have "map pk (rows db') = map pk (rows db)"
        unfolding rw using pku by (rule replace_keeps_keys)
      then have k1: "distinct (map pk (rows db'))" using dk by simp
      have k2: "list_all (\<lambda>r. case pk r of None \<Rightarrow> False | Some j \<Rightarrow> j < next_id db') (rows db')"
        unfolding rw nx using assms(1) kb pku
        by (auto simp: keys_ok_def list_all_iff split: option.splits)
      have u1: "distinct (map email (rows db'))"
        unfolding rw using dk assms(2) un(1) by (intro distinct_replace) (simp_all add: unique_ok_def)
      have u2: "distinct (map phone (rows db'))"
        unfolding rw using dk assms(2) un(2) by (intro distinct_replace) (simp_all add: unique_ok_def)
      show ?thesis using k1 k2 u1 u2 by (simp add: keys_ok_def unique_ok_def)
    next
      case no: False
      have ab: "Some k \<notin> set (map pk (rows db))"
        using no by (auto simp: list_ex_iff)
      have d: "db' = db\<lparr>rows := rows db @ [?u], next_id := max (next_id db) (Suc k)\<rparr>"
        using assms(3) Some False no by (auto simp: save_def Let_def)
      have k: "keys_ok db'"
        using assms(1) ab pku
        by (auto simp: d keys_ok_def list_all_iff split: option.splits)
      have "unique_ok db'"
        using assms(2) un by (simp add: d unique_ok_def filter_absent [OF ab])
      then show ?thesis using k by simp
    qed
  qed
qed

text \<open>Each of the four paths either leaves the table alone or is one save of an entity.\<close>

lemma create_user_step:
  assumes "create_user h built now db e p ef = (res, db')"
  shows "db' = db \<or> (\<exists>u. save now u db = (res, db') \<and> password u = make_password h p)"
proof (cases "e = [] \<or> ef_unknown ef \<noteq> []")
  case True
  show ?thesis
  proof (cases "e = []")
    case True
    then show ?thesis using assms by (simp add: create_user_empty)
  next
    case False
    then have "ef_unknown ef \<noteq> []" using \<open>e = [] \<or> ef_unknown ef \<noteq> []\<close> by simp
    then show ?thesis using assms False by (simp add: create_user_unknown)
  qed
next
  case False
  then show ?thesis
    using assms create_user_save [of e ef h built now db p]
    by (metis CustomUser.select_convs(2))
qed

lemma create_superuser_step:
  assumes "create_superuser h built now db e p ef = (res, db')"
  shows "db' = db \<or> (\<exists>u. save now u db = (res, db') \<and> password u = make_password h p)"
proof (cases "ef_is_staff ef = Some False \<or> ef_is_superuser ef = Some False")
  case True
  then show ?thesis
    using assms create_superuser_rejects [OF True, of h built now db e p] by auto
next
  case False
  then have "create_user h built now db e p (superuser_defaults ef) = (res, db')"
    using assms create_superuser_delegates [of ef h built now db e p] by simp
  then show ?thesis by (rule create_user_step)
qed

lemma creation_form_step:
  assumes "CustomUserCreationForm_save h built now db cd commit = (res, db')"
  shows "db' = db \<or> (\<exists>u. save now u db = (res, db') \<and> phone u = cd_phone cd
                        \<and> password u = make_password h (cd_password1 cd))"
  using assms by (auto simp: CustomUserCreationForm_save_eq Let_def split: if_splits)

lemma change_form_step:
  assumes "CustomUserChangeForm_save now db instance cd = (res, db')"
  shows "\<exists>u. save now u db = (res, db') \<and> phone u = cd_phone cd
              \<and> password u = password instance"
  using assms by (auto simp: CustomUserChangeForm_save_def construct_change)

lemma reachable_keys_unique:
  assumes "reachable h manager db"
  shows "keys_ok db \<and> unique_ok db"
  using assms
proof (induction rule: reachable.induct)
  case reachable_empty
  show ?case by (simp add: empty_db_def keys_ok_def unique_ok_def)
next
  case (reachable_create_user db built now e p ef res db')
  then show ?case
    using create_user_step [OF reachable_create_user.hyps(3)] save_keeps_invariant by blast
next
  case (reachable_create_superuser db built now e p ef res db')
  then show ?case
    using create_superuser_step [OF reachable_create_superuser.hyps(3)] save_keeps_invariant
    by blast
next
  case (reachable_creation_form db cd built now commit res db')
  then show ?case
    using creation_form_step [OF reachable_creation_form.hyps(3)] save_keeps_invariant by blast
next
  case (reachable_change_form db inst cd now res db')
  then show ?case
    using change_form_step [OF reachable_change_form.hyps(4)] save_keeps_invariant by blast
qed

lemma phone_validators_ok:
  assumes "phone_validators s"
  shows "phone_regex s \<and> s \<noteq> []"
  using assms by (auto simp: phone_validators_def phone_regex_def)

lemma save_keeps_phones:
  assumes "phones_ok db" and "phone_validators (phone u)" and "save now u db = (res, db')"
  shows "phones_ok db'"
  unfolding phones_ok_def list_all_iff
proof
  fix r assume "r \<in> set (rows db')"
  then have "r \<in> set (rows db) \<or> phone r = phone u"
    using save_set [OF assms(3)] by blast
  then show "phone_regex (phone r) \<and> phone r \<noteq> []"
    using assms(1) phone_validators_ok [OF assms(2)] by (auto simp: phones_ok_def list_all_iff)
qed

lemma reachable_forms_phones:
  assumes "reachable h manager db" and "\<not> manager"
  shows "phones_ok db"
  using assms
proof (induction rule: reachable.induct)
  case reachable_empty
  show ?case by (simp add: empty_db_def phones_ok_def)
next
  case (reachable_create_user db built now e p ef res db')
  then show ?case by simp
next
  case (reachable_create_superuser db built now e p ef res db')
  then show ?case by simp
next
  case (reachable_creation_form db cd built now commit res db')
  have v: "phone_validators (cd_phone cd)"
    using reachable_creation_form.hyps(2) by (simp add: creation_form_valid_def)
  show ?case
    using creation_form_step [OF reachable_creation_form.hyps(3)] v
      reachable_creation_form.IH reachable_creation_form.prems save_keeps_phones
    by metis
next
  case (reachable_change_form db inst cd now res db')
  have v: "phone_validators (cd_phone cd)"
    using reachable_change_form.hyps(3) by (simp add: change_form_valid_def Let_def)
  show ?case
    using change_form_step [OF reachable_change_form.hyps(4)] v
      reachable_change_form.IH reachable_change_form.prems save_keeps_phones
    by metis
qed

lemma save_keeps_passwords:
  assumes "passwords_ok h db" and "password u \<in> range (make_password h)"
    and "save now u db = (res, db')"
  shows "passwords_ok h db'"
  unfolding passwords_ok_def list_all_iff
proof
  fix r assume "r \<in> set (rows db')"
  then have "r \<in> set (rows db) \<or> password r = password u"
    using save_set [OF assms(3)] by blast
  then show "password r \<in> range (make_password h)"
    using assms(1,2) by (auto simp: passwords_ok_def list_all_iff)
qed

lemma reachable_passwords:
  assumes "reachable h manager db"
  shows "passwords_ok h db"
  using assms
proof (induction rule: reachable.induct)
  case reachable_empty
  show ?case by (simp add: empty_db_def passwords_ok_def)
next
  case (reachable_create_user db built now e p ef res db')
  then show ?case
    using create_user_step [OF reachable_create_user.hyps(3)] save_keeps_passwords
    by (metis rangeI)
next
  case (reachable_create_superuser db built now e p ef res db')
  then show ?case
    using create_superuser_step [OF reachable_create_superuser.hyps(3)] save_keeps_passwords
    by (metis rangeI)
next
  case (reachable_creation_form db cd built now commit res db')
  then show ?case
    using creation_form_step [OF reachable_creation_form.hyps(3)] save_keeps_passwords
    by (metis rangeI)
next
  case (reachable_change_form db inst cd now res db')
  have "password inst \<in> range (make_password h)"
    using reachable_change_form.IH reachable_change_form.hyps(2)
    by (simp add: passwords_ok_def list_all_iff)
  then show ?case
    using change_form_step [OF reachable_change_form.hyps(4)] save_keeps_passwords
      reachable_change_form.IH
    by metis
qed

text \<open>The two forms keep the pattern of the phones, from any table.\<close>

lemma forms_keep_phones:
  assumes "phones_ok db"
  shows "creation_form_valid db cd
           \<Longrightarrow> CustomUserCreationForm_save h built now db cd commit = (res, db')
           \<Longrightarrow> phones_ok db'"
    and "change_form_valid db inst cd
           \<Longrightarrow> CustomUserChangeForm_save now db inst cd = (res, db')
           \<Longrightarrow> phones_ok db'"
proof -
  assume v: "creation_form_valid db cd"
    and s: "CustomUserCreationForm_save h built now db cd commit = (res, db')"
  have "phone_validators (cd_phone cd)" using v by (simp add: creation_form_valid_def)
  then show "phones_ok db'"
    using creation_form_step [OF s] assms save_keeps_phones by metis
next
  assume v: "change_form_valid db inst cd"
    and s: "CustomUserChangeForm_save now db inst cd = (res, db')"
  have "phone_validators (cd_phone cd)" using v by (simp add: change_form_valid_def Let_def)
  then show "phones_ok db'"
    using change_form_step [OF s] assms save_keeps_phones by metis
qed

lemma reachable_unique_and_form_phones:
  assumes "reachable h manager db"
  shows "unique_ok db \<and> (\<not> manager \<longrightarrow> phones_ok db)"
  using reachable_keys_unique [OF assms] reachable_forms_phones [OF assms] by blast

text \<open>
  C4 is not what the code does. \<^verbatim>\<open>create_user\<close> runs no validator: called with a phone
  that does not match the pattern declared on the column, it persists the entity with that
  phone. (The uniqueness of email and phone does hold on every path, and the two forms do
  keep the pattern: see the lemmas above.)
\<close>

theorem create_user_persists_invalid_phone:
  "\<not> phone_regex ''12345678901''
   \<and> create_user example_hasher 150 200 empty_db ''a@b.com'' ''pw''
        (no_extra_fields\<lparr>ef_name := Some ''A'', ef_phone := Some ''12345678901''\<rparr>)
     = (Inr \<lparr>pk = Some 1, password = ''pbkdf2_sha256$pw'', last_login = Some 200,
             is_superuser = False, groups = {}, user_permissions = {}, name = ''A'',
             email = ''a@b.com'', phone = ''12345678901'', is_staff = False,
             is_active = True, date_joined = 150\<rparr>,
        \<lparr>rows = [\<lparr>pk = Some 1, password = ''pbkdf2_sha256$pw'', last_login = Some 200,
                  is_superuser = False, groups = {}, user_permissions = {}, name = ''A'',
                  email = ''a@b.com'', phone = ''12345678901'', is_staff = False,
                  is_active = True, date_joined = 150\<rparr>],
         next_id = 2\<rparr>)"
  by code_simp

text \<open>
  C3. Let the host's hash function behave as a password hash on the password given: the
  hash differs from the password and verifies against it. Then \<^verbatim>\<open>create_user\<close>, called with a
  non-empty email, with keywords that the constructor accepts, and with an email and a
  phone that no persisted entity holds (in particular with a phone that matches the
  pattern), returns an entity that is in the table, whose stored password is not the
  plaintext and verifies against it. Moreover, in every table that the four paths can
  produce, each stored password is a value of the hash function: no path stores a password
  that was not hashed.
\<close>

theorem create_user_stores_hash:
  assumes "e \<noteq> []" and "ef_unknown ef = []"
    and "normalize_email e \<notin> set (map email (rows db))"
    and "getdefault (ef_phone ef) [] \<notin> set (map phone (rows db))"
    and "check_password h p (make_password h p)" and "make_password h p \<noteq> p"
  shows "(\<exists>u db'. create_user h built now db e p ef = (Inr u, db') \<and> u \<in> set (rows db')
            \<and> password u \<noteq> p \<and> check_password h p (password u))
         \<and> (\<forall>manager t. reachable h manager t \<longrightarrow> passwords_ok h t)"
proof -
  have em: "normalize_email e \<notin> set (map email (other_rows (ef_id ef) db))"
    and ph: "getdefault (ef_phone ef) [] \<notin> set (map phone (other_rows (ef_id ef) db))"
    using assms(3,4) other_rows_subset [of "ef_id ef" db] by auto
  obtain u db' where r: "create_user h built now db e p ef = (Inr u, db')"
    using create_user_succeeds [OF assms(1,2) em ph] by blast
  note q = create_user_Inr [OF r]
  have "u \<in> set (rows db') \<and> password u \<noteq> p \<and> check_password h p (password u)"
    using q(5,8) assms(5,6) by simp
  then have "\<exists>u db'. create_user h built now db e p ef = (Inr u, db') \<and> u \<in> set (rows db')
            \<and> password u \<noteq> p \<and> check_password h p (password u)"
    using r by blast
  then show ?thesis using reachable_passwords by blast
qed

theorem create_user_stores_hash_witness:
  "(\<exists>u db'. create_user example_hasher 150 200 example_db ''b@example.com'' ''pw''
               (no_extra_fields\<lparr>ef_name := Some ''Babak'', ef_phone := Some ''09350000000''\<rparr>)
             = (Inr u, db')
      \<and> u \<in> set (rows db') \<and> password u \<noteq> ''pw''
      \<and> check_password example_hasher ''pw'' (password u))
   \<and> phone_regex ''09350000000''"
proof -
  let ?ef = "no_extra_fields\<lparr>ef_name := Some ''Babak'', ef_phone := Some ''09350000000''\<rparr>"
  have a: "''b@example.com'' \<noteq> []" by simp
  have u: "ef_unknown ?ef = []" by (simp add: no_extra_fields_def)
  have b: "normalize_email ''b@example.com'' \<notin> set (map email (rows example_db))"
    by code_simp
  have c: "getdefault (ef_phone ?ef) [] \<notin> set (map phone (rows example_db))"
    by code_simp
  have d: "check_password example_hasher ''pw'' (make_password example_hasher ''pw'')"
    by (simp add: example_hasher_def)
  have e: "make_password example_hasher ''pw'' \<noteq> ''pw''"
    by (simp add: example_hasher_def)
  have f: "phone_regex ''09350000000''" by code_simp
  show ?thesis
    using conjunct1 [OF create_user_stores_hash [OF a u b c d e, where built = 150 and now = 200]] f
    by (rule conjI)
qed

end
